theory Spec2Isabelle
  imports Complex_Main
begin

section \<open>Two-body decay kinematics (TwoBodyDecay.py)\<close>

text \<open>
  The program computes with Python floats. They are modelled as the real numbers they
  approximate: \<open>+\<close>, \<open>-\<close>, \<open>*\<close> are exact, \<open>math.sqrt\<close> is the real square root on
  its domain. What Python does beyond returning a number is written out: \<open>math.sqrt\<close>
  of a negative number raises ValueError, a float division by zero raises
  ZeroDivisionError, subscripting \<open>None\<close> raises TypeError. Rounding, overflow and NaN
  are outside this exact model. Where rounding decides what the program does, namely
  whether the velocity computed by \<open>getBeta\<close> stays below \<open>1\<close>, the line is modelled a
  second time in double precision (\<open>getBeta_double\<close>).
\<close>

subsection \<open>Errors and the primitives that raise them\<close>

text \<open>
  \<open>ValueError\<close>, \<open>ZeroDivisionError\<close> and \<open>TypeError\<close> are the exceptions the source can
  raise. \<open>ForbiddenDecayError\<close> and \<open>OffShellError\<close> are named by the specification only:
  no function of the source raises them.
\<close>

datatype py_error =
    ValueError | ZeroDivisionError | TypeError | ForbiddenDecayError | OffShellError

primrec bind_err :: "py_error + 'a \<Rightarrow> ('a \<Rightarrow> py_error + 'b) \<Rightarrow> py_error + 'b" where
  "bind_err (Inl err) f = Inl err"
| "bind_err (Inr x) f = f x"

definition py_sqrt :: "real \<Rightarrow> py_error + real" where
  \<comment> \<open>\<open>math.sqrt(x)\<close>: "math domain error" below zero\<close>
  "py_sqrt x = (if x < 0 then Inl ValueError else Inr (sqrt x))"

definition py_div :: "real \<Rightarrow> real \<Rightarrow> py_error + real" where
  \<comment> \<open>\<open>a / b\<close> on floats: "float division by zero"\<close>
  "py_div a b = (if b = 0 then Inl ZeroDivisionError else Inr (a / b))"

subsection \<open>Four-momenta\<close>

text \<open>The dictionaries with the keys \<open>'e'\<close>, \<open>'px'\<close>, \<open>'py'\<close>, \<open>'pz'\<close>.\<close>

record fourmom =
  e :: real
  px :: real
  py :: real
  pz :: real

subsection \<open>Kinematic factors\<close>

definition getBeta :: "real \<Rightarrow> real \<Rightarrow> py_error + real" where
  "getBeta m p = bind_err (py_div (p ^ 2) (m ^ 2 + p ^ 2)) py_sqrt"

definition getGamma :: "real \<Rightarrow> py_error + real" where
  "getGamma beta = bind_err (py_sqrt (1 - beta ^ 2)) (\<lambda>s. py_div 1 s)"

definition getMassFromMomentum :: "fourmom \<Rightarrow> py_error + real" where
  "getMassFromMomentum p = py_sqrt ((e p) ^ 2 - (px p) ^ 2 - (py p) ^ 2 - (pz p) ^ 2)"

subsection \<open>The Lorentz boost\<close>

text \<open>
  \<open>gamma\<close> is computed before the direction is looked at, so a bad \<open>beta\<close> raises for
  every direction. A direction other than \<open>'x'\<close>, \<open>'y'\<close>, \<open>'z'\<close> falls through the three
  tests to \<open>return None\<close>. The \<open>'z'\<close> branch is transcribed as the source has it: its
  energy term reads \<open>p0['px']\<close>.
\<close>

definition lorentzBoost :: "fourmom \<Rightarrow> real \<Rightarrow> string \<Rightarrow> py_error + fourmom option" where
  "lorentzBoost p0 beta direction =
     bind_err (getGamma beta) (\<lambda>gamma.
       if direction = ''x'' then
         Inr (Some \<lparr> e = gamma * (e p0 - beta * px p0)
                   , px = gamma * (px p0 - beta * e p0)
                   , py = py p0
                   , pz = pz p0 \<rparr>)
       else if direction = ''y'' then
         Inr (Some \<lparr> e = gamma * (e p0 - beta * py p0)
                   , px = px p0
                   , py = gamma * (py p0 - beta * e p0)
                   , pz = pz p0 \<rparr>)
       else if direction = ''z'' then
         Inr (Some \<lparr> e = gamma * (e p0 - beta * px p0)
                   , px = px p0
                   , py = py p0
                   , pz = gamma * (pz p0 - beta * e p0) \<rparr>)
       else Inr None)"

subsection \<open>The rest-frame solver\<close>

text \<open>
  The dictionaries \<open>{'p1': .., 'p2': ..}\<close> that \<open>restFrameMomenta\<close> and \<open>restFrameDecay\<close>
  return are pairs: the first component is the entry \<open>'p1'\<close>, the second \<open>'p2'\<close>.
\<close>

definition restFrameMomenta :: "real \<Rightarrow> real \<Rightarrow> real \<Rightarrow> py_error + real \<times> real" where
  "restFrameMomenta m0 m1 m2 =
     bind_err (py_sqrt (m0 ^ 2 - (m1 + m2) ^ 2)) (\<lambda>s.
       let p1 = 1 / 2 * s;
           p2 = - p1
       in Inr (p1, p2))"

definition restFrameDecay :: "real \<Rightarrow> real \<Rightarrow> real \<Rightarrow> py_error + fourmom \<times> fourmom" where
  "restFrameDecay m0 m1 m2 =
     bind_err (restFrameMomenta m0 m1 m2) (\<lambda>daughter_momenta.
     bind_err (py_sqrt (m1 ^ 2 + (fst daughter_momenta) ^ 2)) (\<lambda>e1.
     bind_err (py_sqrt (m2 ^ 2 + (snd daughter_momenta) ^ 2)) (\<lambda>e2.
       Inr ( \<lparr> e = e1, px = fst daughter_momenta, py = 0, pz = 0 \<rparr>
           , \<lparr> e = e2, px = snd daughter_momenta, py = 0, pz = 0 \<rparr> ))))"

subsection \<open>Printed output\<close>








definition subscript :: "fourmom option \<Rightarrow> py_error + fourmom" where
  \<comment> \<open>\<open>p['e']\<close> where \<open>p\<close> may be \<open>None\<close>\<close>
  "subscript q = (case q of None \<Rightarrow> Inl TypeError | Some p \<Rightarrow> Inr p)"



subsection \<open>The orchestrator\<close>


subsection \<open>The transform as the specification words it\<close>

text \<open>
  The specification describes one boost for an axis in \<open>{x, y, z}\<close>: with \<open>u\<close> the
  momentum component along the axis and \<open>g = 1 / sqrt (1 - beta\<^sup>2)\<close>, the energy becomes
  \<open>g * (e - beta * u)\<close>, the component along the axis \<open>g * (u - beta * e)\<close>, and the two
  other components pass through. These definitions follow those words, for comparison
  with \<open>lorentzBoost\<close>.
\<close>

datatype axis = AxisX | AxisY | AxisZ

primrec axis_name :: "axis \<Rightarrow> string" where
  "axis_name AxisX = ''x''"
| "axis_name AxisY = ''y''"
| "axis_name AxisZ = ''z''"

primrec along :: "axis \<Rightarrow> fourmom \<Rightarrow> real" where
  "along AxisX p = px p"
| "along AxisY p = py p"
| "along AxisZ p = pz p"

definition spec_gamma :: "real \<Rightarrow> real" where
  "spec_gamma beta = 1 / sqrt (1 - beta ^ 2)"

definition spec_boost :: "fourmom \<Rightarrow> real \<Rightarrow> axis \<Rightarrow> fourmom" where
  "spec_boost p beta a =
     (let u = along a p;
          e' = spec_gamma beta * (e p - beta * u);
          u' = spec_gamma beta * (u - beta * e p)
      in case a of
           AxisX \<Rightarrow> p \<lparr> e := e', px := u' \<rparr>
         | AxisY \<Rightarrow> p \<lparr> e := e', py := u' \<rparr>
         | AxisZ \<Rightarrow> p \<lparr> e := e', pz := u' \<rparr>)"

definition mass_squared :: "fourmom \<Rightarrow> real" where
  "mass_squared p = (e p) ^ 2 - (px p) ^ 2 - (py p) ^ 2 - (pz p) ^ 2"




subsection \<open>The velocity in double precision\<close>

text \<open>
  Whether \<open>getBeta\<close> stays below \<open>1\<close> is decided by rounding, so its line is also
  modelled with the arithmetic of Python's floats: every operation returns the exact
  result rounded to the nearest number with a significand of 53 bits, ties to the even
  significand. \<open>binade x\<close> is the exponent \<open>k\<close> with \<open>2 ^ k \<le> |x| < 2 ^ (k + 1)\<close>, and the
  significand of \<open>x\<close> is \<open>x / 2 ^ (k - 52)\<close>, between \<open>2 ^ 52\<close> and \<open>2 ^ 53\<close>. The range of the
  exponent is not bounded here: overflow to infinity and the subnormal numbers are left
  out. \<open>float(m)\<close> is the rounding of \<open>m\<close>, which leaves a double as it is, and \<open>x**2\<close> is
  the rounded square.
\<close>

definition pow2 :: "int \<Rightarrow> real" where
  "pow2 k = (if 0 \<le> k then 2 ^ nat k else inverse (2 ^ nat (- k)))"

definition binade :: "real \<Rightarrow> int" where
  "binade x = \<lfloor>log 2 \<bar>x\<bar>\<rfloor>"

definition round_half_even :: "real \<Rightarrow> int" where
  "round_half_even x =
     (let f = \<lfloor>x\<rfloor>; d = x - of_int f
      in if d < 1 / 2 then f
         else if 1 / 2 < d then f + 1
         else if even f then f else f + 1)"

definition fl :: "real \<Rightarrow> real" where
  "fl x = (if x = 0 then 0
           else of_int (round_half_even (x / pow2 (binade x - 52))) * pow2 (binade x - 52))"

definition dbl_sqrt :: "real \<Rightarrow> py_error + real" where
  "dbl_sqrt x = (if x < 0 then Inl ValueError else Inr (fl (sqrt x)))"

definition dbl_div :: "real \<Rightarrow> real \<Rightarrow> py_error + real" where
  "dbl_div a b = (if b = 0 then Inl ZeroDivisionError else Inr (fl (a / b)))"

definition getBeta_double :: "real \<Rightarrow> real \<Rightarrow> py_error + real" where
  "getBeta_double m p =
     bind_err (dbl_div (fl ((fl p) ^ 2)) (fl (fl ((fl m) ^ 2) + fl ((fl p) ^ 2)))) dbl_sqrt"

section \<open>General facts\<close>

subsection \<open>Square roots and squares\<close>

lemma sqrt_eval: "0 \<le> r \<Longrightarrow> x = r * r \<Longrightarrow> sqrt x = r"
  by (simp add: real_sqrt_mult)

lemma square_less_iff:
  fixes a b :: real
  assumes "0 \<le> a" and "0 \<le> b"
  shows "a ^ 2 < b ^ 2 \<longleftrightarrow> a < b"
proof
  assume "a ^ 2 < b ^ 2"
  then show "a < b" using assms(2) by (rule power2_less_imp_less)
next
  assume "a < b"
  with assms(1) show "a ^ 2 < b ^ 2" by (simp add: power_strict_mono)
qed

subsection \<open>The factor gamma\<close>

lemma getGamma_ok:
  assumes "\<bar>beta\<bar> < 1"
  shows "getGamma beta = Inr (1 / sqrt (1 - beta ^ 2))"
proof -
  from assms have "beta ^ 2 < 1"
    by (simp add: abs_square_less_1)
  then show ?thesis
    by (simp add: getGamma_def py_sqrt_def py_div_def)
qed

lemma getGamma_three_fifths: "getGamma (3 / 5) = Inr (5 / 4)"
proof -
  have s: "sqrt (16 / 25) = 4 / 5" by (rule sqrt_eval) simp_all
  show ?thesis
    by (simp add: getGamma_def py_sqrt_def py_div_def power2_eq_square s)
qed

lemma getGamma_minus_three_fifths: "getGamma (- (3 / 5)) = Inr (5 / 4)"
proof -
  have s: "sqrt (16 / 25) = 4 / 5" by (rule sqrt_eval) simp_all
  show ?thesis
    by (simp add: getGamma_def py_sqrt_def py_div_def power2_eq_square s)
qed

lemma spec_gamma_three_fifths: "spec_gamma (3 / 5) = 5 / 4"
proof -
  have s: "sqrt (16 / 25) = 4 / 5" by (rule sqrt_eval) simp_all
  show ?thesis
    by (simp add: spec_gamma_def power2_eq_square s)
qed

lemma spec_gamma_minus: "spec_gamma (- beta) = spec_gamma beta"
  by (simp add: spec_gamma_def)

lemma spec_gamma_sq:
  assumes "\<bar>beta\<bar> < 1"
  shows "(spec_gamma beta) ^ 2 * (1 - beta ^ 2) = 1"
proof -
  from assms have "0 < 1 - beta ^ 2"
    by (simp add: abs_square_less_1)
  then show ?thesis
    by (simp add: spec_gamma_def power_divide)
qed

subsection \<open>Boosts along x and y\<close>

text \<open>
  Along \<open>'x'\<close> and \<open>'y'\<close> the source computes the transform of the specification, which
  keeps the squared mass and is undone by the boost with \<open>- beta\<close>.
\<close>

lemma lorentzBoost_x:
  "\<bar>beta\<bar> < 1 \<Longrightarrow> lorentzBoost p beta ''x'' = Inr (Some (spec_boost p beta AxisX))"
  by (simp add: lorentzBoost_def getGamma_ok spec_boost_def spec_gamma_def Let_def)

lemma lorentzBoost_y:
  "\<bar>beta\<bar> < 1 \<Longrightarrow> lorentzBoost p beta ''y'' = Inr (Some (spec_boost p beta AxisY))"
  by (simp add: lorentzBoost_def getGamma_ok spec_boost_def spec_gamma_def Let_def)

lemma boost_algebra:
  fixes g :: real
  assumes "g ^ 2 * (1 - b ^ 2) = 1"
  shows "(g * (x - b * u)) ^ 2 - (g * (u - b * x)) ^ 2 = x ^ 2 - u ^ 2"
proof -
  have "(g * (x - b * u)) ^ 2 - (g * (u - b * x)) ^ 2 = (g ^ 2 * (1 - b ^ 2)) * (x ^ 2 - u ^ 2)"
    by (simp add: power2_eq_square algebra_simps)
  with assms show ?thesis by simp
qed

lemma mass_squared_spec_boost:
  assumes "\<bar>beta\<bar> < 1"
  shows "mass_squared (spec_boost p beta a) = mass_squared p"
  using boost_algebra [OF spec_gamma_sq [OF assms], of "e p" "along a p"]
  by (cases a) (simp_all add: mass_squared_def spec_boost_def Let_def)

lemma roundtrip_algebra:
  fixes g :: real
  assumes "g ^ 2 * (1 - b ^ 2) = 1"
  shows "g * (g * (x - b * u) + b * (g * (u - b * x))) = x"
proof -
  have "g * (g * (x - b * u) + b * (g * (u - b * x))) = (g ^ 2 * (1 - b ^ 2)) * x"
    by (simp add: power2_eq_square algebra_simps)
  with assms show ?thesis by simp
qed

lemma spec_boost_roundtrip:
  assumes "\<bar>beta\<bar> < 1"
  shows "spec_boost (spec_boost p beta a) (- beta) a = p"
  using roundtrip_algebra [OF spec_gamma_sq [OF assms], of "e p" "along a p"]
    roundtrip_algebra [OF spec_gamma_sq [OF assms], of "along a p" "e p"]
  by (cases a) (simp_all add: spec_boost_def spec_gamma_minus Let_def)

text \<open>
  So for an axis other than z the source agrees with the specification's transform, its
  round trip returns the four-momentum it started from, and the mass it extracts after
  the boost is the mass before it.
\<close>

lemma lorentzBoost_not_z:
  assumes "\<bar>beta\<bar> < 1" and "a \<noteq> AxisZ"
  shows "lorentzBoost p beta (axis_name a) = Inr (Some (spec_boost p beta a))"
  using assms by (cases a) (simp_all add: lorentzBoost_x lorentzBoost_y)

lemma lorentzBoost_roundtrip_not_z:
  assumes "\<bar>beta\<bar> < 1" and "a \<noteq> AxisZ"
  shows "bind_err (lorentzBoost p beta (axis_name a)) (\<lambda>q.
           bind_err (subscript q) (\<lambda>p'. lorentzBoost p' (- beta) (axis_name a)))
         = Inr (Some p)"
proof -
  from assms(1) have "\<bar>- beta\<bar> < 1" by simp
  then show ?thesis
    using assms
    by (simp add: lorentzBoost_not_z subscript_def spec_boost_roundtrip)
qed

lemma getMassFromMomentum_mass_squared:
  "getMassFromMomentum p = py_sqrt (mass_squared p)"
  by (simp add: getMassFromMomentum_def mass_squared_def)

lemma lorentzBoost_mass_not_z:
  assumes "\<bar>beta\<bar> < 1" and "a \<noteq> AxisZ"
  shows "bind_err (lorentzBoost p beta (axis_name a)) (\<lambda>q.
           bind_err (subscript q) getMassFromMomentum)
         = getMassFromMomentum p"
  using assms
  by (simp add: lorentzBoost_not_z subscript_def getMassFromMomentum_mass_squared
      mass_squared_spec_boost)

subsection \<open>The rest frame\<close>

lemma restFrameDecay_ok:
  assumes "0 \<le> m1 + m2" and "m1 + m2 \<le> m0"
  shows "restFrameDecay m0 m1 m2 =
     Inr ( \<lparr> e = sqrt (m1 ^ 2 + (1 / 2 * sqrt (m0 ^ 2 - (m1 + m2) ^ 2)) ^ 2)
           , px = 1 / 2 * sqrt (m0 ^ 2 - (m1 + m2) ^ 2), py = 0, pz = 0 \<rparr>
         , \<lparr> e = sqrt (m2 ^ 2 + (1 / 2 * sqrt (m0 ^ 2 - (m1 + m2) ^ 2)) ^ 2)
           , px = - (1 / 2 * sqrt (m0 ^ 2 - (m1 + m2) ^ 2)), py = 0, pz = 0 \<rparr> )"
proof -
  from assms have "(m1 + m2) ^ 2 \<le> m0 ^ 2"
    by (simp add: power_mono)
  then have a: "\<not> m0 ^ 2 - (m1 + m2) ^ 2 < 0" by simp
  have b: "\<not> m1 ^ 2 + (1 / 2 * sqrt (m0 ^ 2 - (m1 + m2) ^ 2)) ^ 2 < 0"
    by (simp add: not_less)
  have c: "\<not> m2 ^ 2 + (1 / 2 * sqrt (m0 ^ 2 - (m1 + m2) ^ 2)) ^ 2 < 0"
    by (simp add: not_less)
  have rm: "restFrameMomenta m0 m1 m2 =
     Inr (1 / 2 * sqrt (m0 ^ 2 - (m1 + m2) ^ 2), - (1 / 2 * sqrt (m0 ^ 2 - (m1 + m2) ^ 2)))"
    using a by (simp add: restFrameMomenta_def py_sqrt_def Let_def)
  show ?thesis
    unfolding restFrameDecay_def rm using b c by (simp add: py_sqrt_def)
qed

lemma energy_algebra:
  fixes a b :: real
  assumes "a ^ 2 = m1 ^ 2 + P" and "b ^ 2 = m2 ^ 2 + P" and "a + b = m0"
    and "4 * P = m0 ^ 2 - (m1 + m2) ^ 2"
  shows "(m1 - m2) ^ 2 * (m0 ^ 2 - (m1 + m2) ^ 2) = 0"
  using assms by algebra

text \<open>
  How far the energies are from summing to the mass of the mother: they do so exactly when
  the daughter masses are equal, or at threshold with nonnegative daughter masses.
\<close>

lemma restFrameDecay_energy_extent:
  assumes "0 \<le> m1 + m2" and "m1 + m2 \<le> m0"
  shows "\<exists>q1 q2. restFrameDecay m0 m1 m2 = Inr (q1, q2)
     \<and> px q1 = - px q2 \<and> py q1 = 0 \<and> pz q1 = 0 \<and> py q2 = 0 \<and> pz q2 = 0
     \<and> (e q1 + e q2 = m0 \<longleftrightarrow> m1 = m2 \<or> (m0 = m1 + m2 \<and> 0 \<le> m1 \<and> 0 \<le> m2))"
proof -
  define D where "D = m0 ^ 2 - (m1 + m2) ^ 2"
  define P where "P = (1 / 2 * sqrt D) ^ 2"
  define a where "a = sqrt (m1 ^ 2 + P)"
  define b where "b = sqrt (m2 ^ 2 + P)"
  from assms have m0: "0 \<le> m0" by simp
  from assms have "(m1 + m2) ^ 2 \<le> m0 ^ 2" by (simp add: power_mono)
  then have D0: "0 \<le> D" by (simp add: D_def)
  then have P4: "4 * P = D" by (simp add: P_def power_divide)
  from P4 D0 have P0: "0 \<le> P" by simp
  have a2: "a ^ 2 = m1 ^ 2 + P" using P0 by (simp add: a_def)
  have b2: "b ^ 2 = m2 ^ 2 + P" using P0 by (simp add: b_def)
  have energy: "a + b = m0 \<longleftrightarrow> m1 = m2 \<or> (m0 = m1 + m2 \<and> 0 \<le> m1 \<and> 0 \<le> m2)"
  proof
    assume sum: "a + b = m0"
    from a2 b2 sum P4 have "(m1 - m2) ^ 2 * (m0 ^ 2 - (m1 + m2) ^ 2) = 0"
      unfolding D_def by (rule energy_algebra)
    then consider "m1 = m2" | "D = 0" by (auto simp: D_def)
    then show "m1 = m2 \<or> (m0 = m1 + m2 \<and> 0 \<le> m1 \<and> 0 \<le> m2)"
    proof cases
      case 1
      then show ?thesis by simp
    next
      case 2
      then have "m0 ^ 2 = (m1 + m2) ^ 2" by (simp add: D_def)
      with m0 assms(1) have eq: "m0 = m1 + m2" by (simp add: power2_eq_iff_nonneg)
      from 2 P4 have "P = 0" by simp
      then have "a = \<bar>m1\<bar>" and "b = \<bar>m2\<bar>" by (simp_all add: a_def b_def)
      with sum eq have "0 \<le> m1 \<and> 0 \<le> m2" by linarith
      with eq show ?thesis by simp
    qed
  next
    assume "m1 = m2 \<or> (m0 = m1 + m2 \<and> 0 \<le> m1 \<and> 0 \<le> m2)"
    then show "a + b = m0"
    proof
      assume eq: "m1 = m2"
      have "4 * (m1 ^ 2 + P) = m0 ^ 2"
        using P4 by (simp add: D_def eq power2_eq_square algebra_simps)
      then have "m1 ^ 2 + P = (m0 / 2) ^ 2" by (simp add: power_divide)
      then have "a = m0 / 2" using m0 by (simp add: a_def)
      moreover have "b = a" by (simp add: a_def b_def eq)
      ultimately show ?thesis by simp
    next
      assume h: "m0 = m1 + m2 \<and> 0 \<le> m1 \<and> 0 \<le> m2"
      then have "D = 0" by (simp add: D_def)
      with P4 have "P = 0" by simp
      with h show ?thesis by (simp add: a_def b_def)
    qed
  qed
  have "restFrameDecay m0 m1 m2 =
     Inr ( \<lparr> e = a, px = 1 / 2 * sqrt D, py = 0, pz = 0 \<rparr>
         , \<lparr> e = b, px = - (1 / 2 * sqrt D), py = 0, pz = 0 \<rparr> )"
    unfolding a_def b_def P_def D_def using assms by (rule restFrameDecay_ok)
  with energy show ?thesis by simp
qed

subsection \<open>The velocity of the mother\<close>



subsection \<open>Running statements\<close>










subsection \<open>The orchestrator in exact arithmetic\<close>



subsection \<open>Rounding to double precision\<close>

lemma pow2_powr: "pow2 k = 2 powr (of_int k)"
  by (simp add: pow2_def powr_realpow [symmetric] powr_minus [symmetric])

lemma pow2_pos: "0 < pow2 k"
  by (simp add: pow2_powr)

lemma pow2_add: "pow2 (j + k) = pow2 j * pow2 k"
  by (simp add: pow2_powr powr_add)

lemma binade_eqI:
  assumes "pow2 k \<le> \<bar>x\<bar>" and "\<bar>x\<bar> < pow2 (k + 1)"
  shows "binade x = k"
proof -
  from assms(1) pow2_pos [of k] have "0 < \<bar>x\<bar>" by linarith
  then show ?thesis
    unfolding binade_def using assms
    by (simp add: floor_log_eq_powr_iff pow2_powr)
qed

lemma round_half_even_int: "round_half_even (of_int k) = k"
  by (simp add: round_half_even_def)

lemma fl_eval:
  assumes "pow2 k \<le> \<bar>x\<bar>" and "\<bar>x\<bar> < pow2 (k + 1)"
    and "round_half_even (x / pow2 (k - 52)) = n"
    and "y = of_int n * pow2 (k - 52)"
  shows "fl x = y"
proof -
  from assms(1) pow2_pos [of k] have "x \<noteq> 0" by auto
  moreover from assms(1,2) have "binade x = k" by (rule binade_eqI)
  ultimately show ?thesis using assms(3,4) by (simp add: fl_def)
qed

lemma fl_one: "fl 1 = 1"
  by (rule fl_eval [where k = 0 and n = "2 ^ 52"])
    (simp_all add: pow2_def round_half_even_def Let_def)

lemma fl_ten_16: "fl 10000000000000000 = 10000000000000000"
  by (rule fl_eval [where k = 53 and n = 5000000000000000])
    (simp_all add: pow2_def round_half_even_def Let_def)

lemma fl_ten_16_plus_1: "fl 10000000000000001 = 10000000000000000"
  by (rule fl_eval [where k = 53 and n = 5000000000000000])
    (simp_all add: pow2_def round_half_even_def Let_def)

lemma fl_ten_8: "fl 100000000 = 100000000"
  by (rule fl_eval [where k = 26 and n = "100000000 * 2 ^ 26"])
    (simp_all add: pow2_def round_half_even_def Let_def)

lemma round_half_even_near:
  "\<bar>of_int (round_half_even x) - x\<bar> \<le> 1 / 2"
  unfolding round_half_even_def Let_def by (auto; linarith)

lemma round_half_even_mono:
  assumes "x \<le> y"
  shows "round_half_even x \<le> round_half_even y"
proof (rule ccontr)
  assume "\<not> round_half_even x \<le> round_half_even y"
  then have gt: "round_half_even y + 1 \<le> round_half_even x" by simp
  then have "of_int (round_half_even y) + 1 \<le> (of_int (round_half_even x) :: real)"
    by (metis of_int_1 of_int_add of_int_le_iff)
  with round_half_even_near [of x] round_half_even_near [of y] assms
  have "x = y" by linarith
  with gt show False by simp
qed

lemma binade_bounds:
  assumes "0 < x"
  shows "pow2 (binade x) \<le> x" and "x < pow2 (binade x + 1)"
  using assms floor_log_eq_powr_iff [of x 2 "binade x"]
  by (simp_all add: binade_def pow2_powr)

lemma pow2_mono: "j \<le> k \<Longrightarrow> pow2 j \<le> pow2 k"
  by (simp add: pow2_powr)

lemma pow2_52: "2 ^ 52 * pow2 (k - 52) = pow2 k"
proof -
  have "pow2 k = pow2 (52 + (k - 52))" by (rule arg_cong [where f = pow2]) simp
  also have "\<dots> = pow2 52 * pow2 (k - 52)" by (rule pow2_add)
  finally show ?thesis by (simp add: pow2_def)
qed

lemma pow2_53: "2 ^ 53 * pow2 (k - 52) = pow2 (k + 1)"
proof -
  have "pow2 (k + 1) = pow2 (53 + (k - 52))" by (rule arg_cong [where f = pow2]) simp
  also have "\<dots> = pow2 53 * pow2 (k - 52)" by (rule pow2_add)
  finally show ?thesis by (simp add: pow2_def)
qed

lemma significand_bounds:
  assumes "0 < x"
  shows "2 ^ 52 \<le> round_half_even (x / pow2 (binade x - 52))"
    and "round_half_even (x / pow2 (binade x - 52)) \<le> 2 ^ 53"
proof -
  let ?u = "pow2 (binade x - 52)"
  have u: "0 < ?u" by (rule pow2_pos)
  have "2 ^ 52 * ?u \<le> x"
    by (subst pow2_52) (rule binade_bounds(1) [OF assms])
  with u have lo: "of_int (2 ^ 52) \<le> x / ?u"
    by (simp add: pos_le_divide_eq)
  have "x < 2 ^ 53 * ?u"
    by (subst pow2_53) (rule binade_bounds(2) [OF assms])
  with u have hi: "x / ?u \<le> of_int (2 ^ 53)"
    by (simp add: pos_divide_le_eq)
  from round_half_even_mono [OF lo] show "2 ^ 52 \<le> round_half_even (x / ?u)"
    by (simp only: round_half_even_int)
  from round_half_even_mono [OF hi] show "round_half_even (x / ?u) \<le> 2 ^ 53"
    by (simp only: round_half_even_int)
qed

lemma fl_bounds:
  assumes "0 < x"
  shows "pow2 (binade x) \<le> fl x" and "fl x \<le> pow2 (binade x + 1)"
proof -
  let ?u = "pow2 (binade x - 52)"
  let ?n = "round_half_even (x / ?u)"
  have u: "0 < ?u" by (rule pow2_pos)
  from assms have f: "fl x = of_int ?n * ?u" by (simp add: fl_def)
  from significand_bounds [OF assms]
  have "(2 ^ 52 :: real) \<le> of_int ?n" and "of_int ?n \<le> (2 ^ 53 :: real)"
    by (metis of_int_le_iff of_int_numeral of_int_power)+
  with u have "2 ^ 52 * ?u \<le> of_int ?n * ?u" and "of_int ?n * ?u \<le> 2 ^ 53 * ?u"
    by simp_all
  then show "pow2 (binade x) \<le> fl x" and "fl x \<le> pow2 (binade x + 1)"
    unfolding f pow2_52 pow2_53 .
qed

lemma fl_pos: "0 < x \<Longrightarrow> 0 < fl x"
  using fl_bounds(1) [of x] pow2_pos [of "binade x"] by linarith

lemma fl_nonneg: "0 \<le> x \<Longrightarrow> 0 \<le> fl x"
  using fl_pos [of x] by (cases "x = 0") (simp_all add: fl_def less_eq_real_def)

lemma binade_mono:
  assumes "0 < x" and "x \<le> y"
  shows "binade x \<le> binade y"
  unfolding binade_def using assms by (intro floor_mono) simp

lemma fl_mono:
  assumes "0 \<le> x" and "x \<le> y"
  shows "fl x \<le> fl y"
proof (cases "x = 0")
  case True
  with assms fl_nonneg [of y] show ?thesis by (simp add: fl_def)
next
  case False
  with assms have x: "0 < x" and y: "0 < y" by simp_all
  from binade_mono [OF x assms(2)] consider "binade x = binade y" | "binade x + 1 \<le> binade y"
    by linarith
  then show ?thesis
  proof cases
    case 1
    let ?u = "pow2 (binade y - 52)"
    have u: "0 < ?u" by (rule pow2_pos)
    with assms(2) have "x / ?u \<le> y / ?u" by (simp add: divide_right_mono)
    then have "round_half_even (x / ?u) \<le> round_half_even (y / ?u)"
      by (rule round_half_even_mono)
    then have "(of_int (round_half_even (x / ?u)) :: real) \<le> of_int (round_half_even (y / ?u))"
      by simp
    with u have "of_int (round_half_even (x / ?u)) * ?u \<le> of_int (round_half_even (y / ?u)) * ?u"
      by simp
    with x y 1 show ?thesis by (simp add: fl_def)
  next
    case 2
    from fl_bounds(2) [OF x] have "fl x \<le> pow2 (binade x + 1)" .
    also from 2 have "\<dots> \<le> pow2 (binade y)" by (rule pow2_mono)
    also from fl_bounds(1) [OF y] have "\<dots> \<le> fl y" .
    finally show ?thesis .
  qed
qed

lemma fl_idem:
  assumes "0 \<le> x"
  shows "fl (fl x) = fl x"
proof (cases "x = 0")
  case True
  then show ?thesis by (simp add: fl_def)
next
  case False
  with assms have x: "0 < x" by simp
  let ?k = "binade x"
  let ?u = "pow2 (?k - 52)"
  let ?n = "round_half_even (x / ?u)"
  have u: "0 < ?u" by (rule pow2_pos)
  from x have f: "fl x = of_int ?n * ?u" by (simp add: fl_def)
  from fl_pos [OF x] have abs: "\<bar>fl x\<bar> = fl x" by simp
  from significand_bounds [OF x] consider "?n < 2 ^ 53" "2 ^ 52 \<le> ?n" | "?n = 2 ^ 53"
    by (metis less_le)
  then show ?thesis
  proof cases
    case 1
    from 1(1) have "(of_int ?n :: real) < 2 ^ 53"
      by (metis of_int_less_iff of_int_numeral of_int_power)
    with u have "of_int ?n * ?u < 2 ^ 53 * ?u" by simp
    then have lt: "fl x < pow2 (?k + 1)" unfolding f pow2_53 .
    show ?thesis
    proof (rule fl_eval [where k = ?k and n = ?n])
      show "pow2 ?k \<le> \<bar>fl x\<bar>" using fl_bounds(1) [OF x] abs by simp
      show "\<bar>fl x\<bar> < pow2 (?k + 1)" using lt abs by simp
      show "round_half_even (fl x / ?u) = ?n"
        using u by (simp add: f round_half_even_int)
      show "fl x = of_int ?n * ?u" by (rule f)
    qed
  next
    case 2
    then have "fl x = 2 ^ 53 * ?u" by (simp add: f)
    then have top: "fl x = pow2 (?k + 1)" unfolding pow2_53 .
    have q: "pow2 (?k + 1) / pow2 (?k + 1 - 52) = of_int (2 ^ 52)"
      using pow2_52 [of "?k + 1", symmetric] pow2_pos [of "?k + 1 - 52"] by simp
    show ?thesis
    proof (rule fl_eval [where k = "?k + 1" and n = "2 ^ 52"])
      show "pow2 (?k + 1) \<le> \<bar>fl x\<bar>" using abs top by simp
      show "\<bar>fl x\<bar> < pow2 (?k + 1 + 1)"
        using abs top pow2_add [of "?k + 1" 1] pow2_pos [of "?k + 1"] by (simp add: pow2_def)
      show "round_half_even (fl x / pow2 (?k + 1 - 52)) = 2 ^ 52"
        unfolding top q by (rule round_half_even_int)
      show "fl x = of_int (2 ^ 52) * pow2 (?k + 1 - 52)"
        using pow2_52 [of "?k + 1"] top by simp
    qed
  qed
qed

lemma round_half_even_minus: "round_half_even (- x) = - round_half_even x"
proof (cases "x \<in> \<int>")
  case True
  then obtain k where "x = of_int k" by (auto elim: Ints_cases)
  then have "- x = of_int (- k)" by simp
  then show ?thesis unfolding \<open>x = of_int k\<close>
    by (metis round_half_even_int of_int_minus)
next
  case False
  let ?f = "\<lfloor>x\<rfloor>"
  let ?d = "x - of_int ?f"
  have "of_int ?f \<noteq> x" using False by (metis Ints_of_int)
  then have d: "0 < ?d" "?d < 1" by linarith+
  have floor_neg: "\<lfloor>- x\<rfloor> = - ?f - 1"
    using d by (intro floor_unique) simp_all
  have d': "- x - of_int (- ?f - 1) = 1 - ?d" by simp
  have ev: "even (- ?f - 1) \<longleftrightarrow> odd ?f" by simp
  show ?thesis
    unfolding round_half_even_def [of "- x"] round_half_even_def [of x] Let_def floor_neg d' ev
    using d by (auto; linarith)
qed

lemma binade_minus: "binade (- x) = binade x"
  by (simp add: binade_def)

lemma fl_minus: "fl (- x) = - fl x"
  by (simp add: fl_def binade_minus round_half_even_minus)

lemma fl_eq_0_iff: "fl x = 0 \<longleftrightarrow> x = 0"
proof
  assume z: "fl x = 0"
  show "x = 0"
  proof (rule ccontr)
    assume "x \<noteq> 0"
    then consider "0 < x" | "0 < - x" by linarith
    then show False
    proof cases
      case 1
      from fl_pos [OF 1] z show False by simp
    next
      case 2
      from fl_pos [OF 2] z show False by (simp add: fl_minus)
    qed
  qed
next
  assume "x = 0"
  then show "fl x = 0" by (simp add: fl_def)
qed



section \<open>Claims\<close>

subsection \<open>The boost\<close>

text \<open>
  C1. For every four-momentum, every \<open>beta\<close> with \<open>|beta| < 1\<close> and every axis, the boost
  returns the energy \<open>gamma * (e - beta * u)\<close> and the axis component
  \<open>gamma * (u - beta * e)\<close>, with \<open>u\<close> the momentum component along that same axis, and
  leaves the two other components unchanged. The \<open>'z'\<close> branch of the source breaks this:
  at \<open>e = 5, px = 3, py = 0, pz = 0\<close> and \<open>beta = 3/5\<close> it returns the energy
  \<open>5/4 * (5 - 3/5 * 3) = 4\<close>, computed from \<open>px\<close>, where the transform with \<open>u = pz\<close>
  gives \<open>5/4 * (5 - 3/5 * 0) = 25/4\<close>.
\<close>

theorem lorentzBoost_z_energy_reads_px:
  "lorentzBoost \<lparr> e = 5, px = 3, py = 0, pz = 0 \<rparr> (3 / 5) ''z''
     = Inr (Some \<lparr> e = 4, px = 3, py = 0, pz = - (15 / 4) \<rparr>)
   \<and> spec_boost \<lparr> e = 5, px = 3, py = 0, pz = 0 \<rparr> (3 / 5) AxisZ
     = \<lparr> e = 25 / 4, px = 3, py = 0, pz = - (15 / 4) \<rparr>"
  by (simp add: lorentzBoost_def getGamma_three_fifths spec_boost_def spec_gamma_three_fifths
      Let_def)

text \<open>
  C2. Boosting with \<open>beta\<close> and then with \<open>- beta\<close> along the same axis returns the
  four-momentum one started from. Along \<open>'z'\<close> the source does not: from
  \<open>e = 1, px = 1, py = 0, pz = 0\<close> with \<open>beta = 3/5\<close> the two boosts end at
  \<open>e = 11/8, pz = - 9/16\<close>.
\<close>

theorem lorentzBoost_z_roundtrip_off:
  "lorentzBoost \<lparr> e = 1, px = 1, py = 0, pz = 0 \<rparr> (3 / 5) ''z''
     = Inr (Some \<lparr> e = 1 / 2, px = 1, py = 0, pz = - (3 / 4) \<rparr>)
   \<and> lorentzBoost \<lparr> e = 1 / 2, px = 1, py = 0, pz = - (3 / 4) \<rparr> (- (3 / 5)) ''z''
     = Inr (Some \<lparr> e = 11 / 8, px = 1, py = 0, pz = - (9 / 16) \<rparr>)"
  by (simp add: lorentzBoost_def getGamma_three_fifths getGamma_minus_three_fifths)

text \<open>
  C3. The invariant mass of a boosted on-shell four-momentum equals the mass before the
  boost. Along \<open>'z'\<close> the source does not keep it: \<open>e = 5, px = 3, py = 0, pz = 0\<close> has
  mass \<open>4\<close>; boosted with \<open>beta = 3/5\<close> its squared mass is \<open>16 - 9 - 225/16 < 0\<close>, and
  \<open>getMassFromMomentum\<close> raises ValueError.
\<close>

theorem lorentzBoost_z_mass_not_kept:
  "getMassFromMomentum \<lparr> e = 5, px = 3, py = 0, pz = 0 \<rparr> = Inr 4
   \<and> lorentzBoost \<lparr> e = 5, px = 3, py = 0, pz = 0 \<rparr> (3 / 5) ''z''
     = Inr (Some \<lparr> e = 4, px = 3, py = 0, pz = - (15 / 4) \<rparr>)
   \<and> getMassFromMomentum \<lparr> e = 4, px = 3, py = 0, pz = - (15 / 4) \<rparr> = Inl ValueError"
proof -
  have s: "sqrt 16 = 4" by (rule sqrt_eval) simp_all
  show ?thesis
    by (simp add: lorentzBoost_def getGamma_three_fifths getMassFromMomentum_def py_sqrt_def
        power2_eq_square s)
qed

text \<open>
  C9. For every four-momentum and every \<open>beta\<close> with \<open>|beta| < 1\<close>, a boost whose direction
  argument is none of \<open>'x'\<close>, \<open>'y'\<close>, \<open>'z'\<close> returns \<open>None\<close>: no exception is raised and no
  four-momentum is returned.
\<close>

theorem lorentzBoost_other_direction:
  assumes "\<bar>beta\<bar> < 1"
    and "direction \<noteq> ''x''" and "direction \<noteq> ''y''" and "direction \<noteq> ''z''"
  shows "lorentzBoost p beta direction = Inr None"
  using assms by (simp add: lorentzBoost_def getGamma_ok)

theorem lorentzBoost_other_direction_witness:
  "\<bar>1 / 2 :: real\<bar> < 1 \<and> ''w'' \<noteq> ''x'' \<and> ''w'' \<noteq> ''y'' \<and> ''w'' \<noteq> ''z''
   \<and> lorentzBoost \<lparr> e = 5, px = 3, py = 0, pz = 0 \<rparr> (1 / 2) ''w'' = Inr None"
  using lorentzBoost_other_direction [of "1 / 2" "''w''" "\<lparr> e = 5, px = 3, py = 0, pz = 0 \<rparr>"]
  by simp

subsection \<open>The rest-frame solver\<close>

text \<open>
  C4. For every feasible mass triple, the daughter energies of \<open>restFrameDecay\<close> sum to
  \<open>m0\<close> and the daughter momenta are opposite along x. The momenta are opposite
  (\<open>restFrameDecay_ok\<close>), but the energies do not sum to \<open>m0\<close>: line 68 of the source
  computes \<open>1/2 * sqrt (m0\<^sup>2 - (m1 + m2)\<^sup>2)\<close>, which is the momentum of a two-body decay
  only for equal daughter masses. For \<open>m0 = 5, m1 = 3, m2 = 0\<close> the code returns the
  momenta \<open>2\<close> and \<open>- 2\<close> and the energies \<open>sqrt 13\<close> and \<open>2\<close>, whose sum is above \<open>5.5\<close>;
  with the momenta \<open>8/5\<close> and \<open>- 8/5\<close> the energies are \<open>17/5\<close> and \<open>8/5\<close> and sum to \<open>5\<close>.
\<close>

theorem restFrameDecay_energy_not_conserved:
  "restFrameDecay 5 3 0 =
     Inr (\<lparr> e = sqrt 13, px = 2, py = 0, pz = 0 \<rparr>, \<lparr> e = 2, px = - 2, py = 0, pz = 0 \<rparr>)
   \<and> 5 + 1 / 2 < sqrt 13 + 2
   \<and> sqrt (3 ^ 2 + (8 / 5) ^ 2) + sqrt (0 ^ 2 + (8 / 5) ^ 2) = 5"
proof -
  have s16: "sqrt 16 = 4" by (rule sqrt_eval) simp_all
  have s4: "sqrt 4 = 2" by (rule sqrt_eval) simp_all
  have "sqrt ((7 / 2) ^ 2) < sqrt 13"
    by (subst real_sqrt_less_iff) (simp add: power2_eq_square)
  then have lt: "7 / 2 < sqrt 13" by simp
  have code: "restFrameDecay 5 3 0 =
     Inr (\<lparr> e = sqrt 13, px = 2, py = 0, pz = 0 \<rparr>, \<lparr> e = 2, px = - 2, py = 0, pz = 0 \<rparr>)"
    by (simp add: restFrameDecay_def restFrameMomenta_def py_sqrt_def Let_def s16 s4)
  have e1: "sqrt (3 ^ 2 + (8 / 5) ^ 2) = 17 / 5" by (rule sqrt_eval) (simp_all add: power2_eq_square)
  have e2: "sqrt (0 ^ 2 + (8 / 5) ^ 2) = 8 / 5" by (rule sqrt_eval) (simp_all add: power2_eq_square)
  from code lt show ?thesis unfolding e1 e2 by simp
qed

text \<open>
  C5, as the code has it. For nonnegative masses, \<open>restFrameMomenta\<close> raises Python's
  ValueError (the domain error of \<open>math.sqrt\<close>) when \<open>m0 < m1 + m2\<close> and returns nothing;
  otherwise it returns \<open>p1 = 1/2 * sqrt (m0\<^sup>2 - (m1 + m2)\<^sup>2)\<close> and \<open>p2 = - p1\<close>.
\<close>

theorem restFrameMomenta_feasibility:
  assumes "0 \<le> m0" and "0 \<le> m1" and "0 \<le> m2"
  shows "restFrameMomenta m0 m1 m2 =
     (if m0 < m1 + m2 then Inl ValueError
      else Inr (1 / 2 * sqrt (m0 ^ 2 - (m1 + m2) ^ 2), - (1 / 2 * sqrt (m0 ^ 2 - (m1 + m2) ^ 2))))"
proof -
  from assms have "m0 ^ 2 - (m1 + m2) ^ 2 < 0 \<longleftrightarrow> m0 < m1 + m2"
    using square_less_iff [of m0 "m1 + m2"] by simp
  then show ?thesis
    by (simp add: restFrameMomenta_def py_sqrt_def Let_def)
qed

theorem restFrameMomenta_feasibility_witness:
  "(0::real) \<le> 5 \<and> (0::real) \<le> 3 \<and> (0::real) \<le> 0
   \<and> restFrameMomenta 5 3 0 = Inr (2, - 2)
   \<and> restFrameMomenta 1 3 0 = Inl ValueError"
proof -
  have s: "sqrt 16 = 4" by (rule sqrt_eval) simp_all
  show ?thesis
    using restFrameMomenta_feasibility [of 5 3 0] restFrameMomenta_feasibility [of 1 3 0]
    by (simp add: s)
qed

text \<open>
  C5 as stated fails: for \<open>m0 = m1 = m2 = 1\<close> the error is ValueError, not
  ForbiddenDecayError; and with a negative \<open>m0\<close> the solver returns a momentum although
  \<open>m0 < m1 + m2\<close>.
\<close>

theorem restFrameMomenta_error_counterexample:
  "restFrameMomenta 1 1 1 = Inl ValueError
   \<and> restFrameMomenta 1 1 1 \<noteq> Inl ForbiddenDecayError
   \<and> - 5 < (3::real) + 0 \<and> restFrameMomenta (- 5) 3 0 = Inr (2, - 2)"
proof -
  have s: "sqrt 16 = 4" by (rule sqrt_eval) simp_all
  show ?thesis by (simp add: restFrameMomenta_def py_sqrt_def s)
qed

subsection \<open>The invariant mass\<close>

text \<open>
  C6, as the code has it. \<open>getMassFromMomentum\<close> has no tolerance and does not clamp: for
  every negative squared mass it raises ValueError, and otherwise it returns the square
  root of the squared mass, which then equals \<open>sqrt (max m\<^sup>2 0)\<close>.
\<close>

theorem getMassFromMomentum_cases:
  "getMassFromMomentum p =
     (if mass_squared p < 0 then Inl ValueError else Inr (sqrt (max (mass_squared p) 0)))"
  by (simp add: getMassFromMomentum_def py_sqrt_def mass_squared_def max_def)

text \<open>
  C6 as stated fails whatever the tolerance is: at \<open>e = 1, px = 2, py = 0, pz = 0\<close> the
  squared mass is \<open>- 3\<close>, and the result is ValueError, neither OffShellError nor the
  clamped value \<open>sqrt (max (- 3) 0)\<close>.
\<close>

theorem getMassFromMomentum_counterexample:
  "mass_squared \<lparr> e = 1, px = 2, py = 0, pz = 0 \<rparr> = - 3
   \<and> getMassFromMomentum \<lparr> e = 1, px = 2, py = 0, pz = 0 \<rparr> = Inl ValueError
   \<and> getMassFromMomentum \<lparr> e = 1, px = 2, py = 0, pz = 0 \<rparr> \<noteq> Inl OffShellError
   \<and> getMassFromMomentum \<lparr> e = 1, px = 2, py = 0, pz = 0 \<rparr> \<noteq> Inr (sqrt (max (- 3) 0))"
  by (simp add: getMassFromMomentum_def py_sqrt_def mass_squared_def)

subsection \<open>The velocity\<close>

text \<open>
  C8. For every rest mass \<open>m \<ge> 0\<close> and momentum magnitude \<open>p \<ge> 0\<close>, not both zero,
  \<open>getBeta m p\<close> returns \<open>p / sqrt (m\<^sup>2 + p\<^sup>2)\<close>; in particular it returns \<open>0\<close> when
  \<open>p = 0\<close>.
\<close>

theorem getBeta_formula:
  assumes "0 \<le> m" and "0 \<le> p" and "(m, p) \<noteq> (0, 0)"
  shows "getBeta m p = Inr (p / sqrt (m ^ 2 + p ^ 2)) \<and> (p = 0 \<longrightarrow> getBeta m p = Inr 0)"
proof -
  from assms have pos: "0 < m ^ 2 + p ^ 2"
    by (metis sum_power2_gt_zero_iff)
  then have nz: "m ^ 2 + p ^ 2 \<noteq> 0" by linarith
  have "sqrt (p ^ 2 / (m ^ 2 + p ^ 2)) = p / sqrt (m ^ 2 + p ^ 2)"
    using assms(2) by (simp add: real_sqrt_divide)
  moreover have "\<not> p ^ 2 / (m ^ 2 + p ^ 2) < 0"
    using pos by (simp add: not_less)
  ultimately have "getBeta m p = Inr (p / sqrt (m ^ 2 + p ^ 2))"
    using nz by (simp add: getBeta_def py_div_def py_sqrt_def)
  then show ?thesis by auto
qed

theorem getBeta_formula_witness:
  "(0::real) \<le> 4 \<and> (0::real) \<le> 3 \<and> (4::real, 3::real) \<noteq> (0, 0)
   \<and> getBeta 4 3 = Inr (3 / 5) \<and> getBeta 1 0 = Inr 0"
proof -
  have s: "sqrt 25 = 5" by (rule sqrt_eval) simp_all
  show ?thesis using getBeta_formula [of 4 3] getBeta_formula [of 1 0] s by simp
qed

text \<open>
  C10, as the code has it. For every \<open>m\<close> and \<open>p\<close> with \<open>m\<^sup>2 + p\<^sup>2 > 0\<close>, in double
  precision, \<open>getBeta m p = getBeta m (- p)\<close>, and the value returned is nonnegative and
  at most \<open>1\<close>.
\<close>

theorem getBeta_double_bounds:
  assumes "0 < m ^ 2 + p ^ 2"
  shows "getBeta_double m p = getBeta_double m (- p)
     \<and> (\<exists>b. getBeta_double m p = Inr b \<and> 0 \<le> b \<and> b \<le> 1)"
proof -
  define a where "a = fl ((fl p) ^ 2)"
  define c where "c = fl ((fl m) ^ 2)"
  define d where "d = fl (c + a)"
  define q where "q = fl (a / d)"
  have a0: "0 \<le> a" unfolding a_def by (rule fl_nonneg) simp
  have c0: "0 \<le> c" unfolding c_def by (rule fl_nonneg) simp
  have "0 < c + a"
  proof (cases "m = 0")
    case True
    with assms have "p \<noteq> 0" by auto
    then have "0 < (fl p) ^ 2" by (simp add: fl_eq_0_iff)
    then have "0 < a" unfolding a_def by (rule fl_pos)
    with c0 show ?thesis by simp
  next
    case False
    then have "0 < (fl m) ^ 2" by (simp add: fl_eq_0_iff)
    then have "0 < c" unfolding c_def by (rule fl_pos)
    with a0 show ?thesis by simp
  qed
  then have d0: "0 < d" unfolding d_def by (rule fl_pos)
  have "fl a \<le> d" unfolding d_def using a0 c0 by (intro fl_mono) simp_all
  moreover have "fl a = a" unfolding a_def by (rule fl_idem) simp
  ultimately have ad: "a \<le> d" by simp
  with d0 a0 have r0: "0 \<le> a / d" and r1: "a / d \<le> 1" by simp_all
  have q0: "0 \<le> q" unfolding q_def using r0 by (rule fl_nonneg)
  have "q \<le> fl 1" unfolding q_def using r0 r1 by (rule fl_mono)
  then have q1: "q \<le> 1" by (simp add: fl_one)
  have b0: "0 \<le> fl (sqrt q)" using q0 by (intro fl_nonneg) simp
  have "fl (sqrt q) \<le> fl 1" using q0 q1 by (intro fl_mono) simp_all
  then have b1: "fl (sqrt q) \<le> 1" by (simp add: fl_one)
  have val: "getBeta_double m p = Inr (fl (sqrt q))"
    using d0 q0
    by (simp add: getBeta_double_def dbl_div_def dbl_sqrt_def a_def [symmetric] c_def [symmetric]
        d_def [symmetric] q_def [symmetric] not_less [symmetric])
  have sym: "getBeta_double m p = getBeta_double m (- p)"
    by (simp add: getBeta_double_def fl_minus)
  from val sym b0 b1 show ?thesis by simp
qed

theorem getBeta_double_bounds_witness:
  "(0::real) < 4 ^ 2 + 3 ^ 2 \<and> getBeta_double 4 3 = getBeta_double 4 (- 3)
   \<and> (\<exists>b. getBeta_double 4 3 = Inr b \<and> 0 \<le> b \<and> b \<le> 1)"
proof -
  have h: "(0::real) < 4 ^ 2 + 3 ^ 2" by simp
  from h getBeta_double_bounds [OF h] show ?thesis by blast
qed

text \<open>
  C10 as stated fails: the value is not below \<open>1\<close> for every \<open>m > 0\<close>. For \<open>m = 1\<close> and
  \<open>p = 10 ^ 8\<close> the squares \<open>1\<close> and \<open>10 ^ 16\<close> are exact, their sum \<open>10 ^ 16 + 1\<close> lies halfway
  between the doubles \<open>10 ^ 16\<close> and \<open>10 ^ 16 + 2\<close> and is rounded to \<open>10 ^ 16\<close>, so the quotient
  and its square root are exactly \<open>1\<close>.
\<close>

theorem getBeta_double_reaches_one:
  "(0::real) < 1 \<and> getBeta_double 1 100000000 = Inr 1"
  by (simp add: getBeta_double_def fl_one fl_ten_8 fl_ten_16 fl_ten_16_plus_1 dbl_div_def
      dbl_sqrt_def)

subsection \<open>The orchestrator\<close>




end
